theory Spec2Isabelle
  imports Complex_Main "HOL-Library.Char_ord" "HOL-Library.List_Lexorder" "HOL-Library.AList"
begin

section \<open>Candidate generation: \<open>generate_table_variations\<close>\<close>

text \<open>
  The scanner of \<open>force.py\<close> keeps its candidate names in \<open>self.common_tables\<close>, a list of
  strings, and \<open>generate_table_variations\<close> replaces that list by the sorted list of a
  Python set built from it. Python compares strings by code point, lexicographically; the
  order on \<open>string\<close> used here is the lexicographic order on characters.
\<close>

definition endswith :: "string \<Rightarrow> string \<Rightarrow> bool" where
  \<comment> \<open>\<open>s.endswith(x)\<close>\<close>
  "endswith s x = (length x \<le> length s \<and> drop (length s - length x) s = x)"

definition add_singular :: "string \<Rightarrow> string set \<Rightarrow> string set" where
  \<comment> \<open>The body of the loop "Add singular forms": \<open>table[:-1]\<close> is \<open>butlast table\<close>,
      \<open>table[:-3]\<close> drops the last three characters.\<close>
  "add_singular table variations =
     (if endswith table ''s'' \<and> length table > 3 then insert (butlast table) variations
      else if endswith table ''ies'' then
        insert (take (length table - 3) table @ ''y'') variations
      else variations)"

definition prefixes :: "string list" where
  "prefixes = [''app_'', ''user_'', ''admin_'', ''sys_'', ''tmp_'', ''old_'', ''new_'']"

definition suffixes :: "string list" where
  "suffixes = [''_data'', ''_info'', ''_details'', ''_log'', ''_history'']"

definition add_prefix :: "string \<Rightarrow> string set \<Rightarrow> string set" where
  \<comment> \<open>\<open>for table in list(variations): variations.add(prefix + table)\<close>: the inner loop runs
      over a copy of the set taken when this prefix's turn begins.\<close>
  "add_prefix prefix variations = variations \<union> (\<lambda>table. prefix @ table) ` variations"

definition add_suffix :: "string \<Rightarrow> string set \<Rightarrow> string set" where
  \<comment> \<open>\<open>for table in list(variations): variations.add(table + suffix)\<close>\<close>
  "add_suffix suffix variations = variations \<union> (\<lambda>table. table @ suffix) ` variations"

definition variations_of :: "string list \<Rightarrow> string set" where
  \<comment> \<open>The set \<open>variations\<close> when the three loops are over.\<close>
  "variations_of common_tables =
     fold add_suffix suffixes
       (fold add_prefix prefixes
         (fold add_singular common_tables (set common_tables)))"

definition generate_table_variations :: "string list \<Rightarrow> string list" where
  \<comment> \<open>The new value of \<open>self.common_tables\<close>: \<open>sorted(list(variations))\<close>.\<close>
  "generate_table_variations common_tables = sorted_list_of_set (variations_of common_tables)"


definition initial_common_tables :: "string list" where
  \<comment> \<open>The list literal assigned to \<open>self.common_tables\<close> in \<open>__init__\<close>, duplicates included.\<close>
  "initial_common_tables =
    [''users'', ''profiles'', ''accounts'', ''auth'', ''sessions'', ''tokens'',
     ''user_profiles'', ''user_settings'', ''user_roles'', ''permissions'',
     ''posts'', ''articles'', ''pages'', ''content'', ''media'', ''images'',
     ''files'', ''documents'', ''uploads'', ''attachments'', ''gallery'',
     ''products'', ''categories'', ''orders'', ''payments'', ''transactions'',
     ''cart'', ''wishlist'', ''inventory'', ''suppliers'', ''customers'',
     ''invoices'', ''receipts'', ''discounts'', ''coupons'', ''reviews'',
     ''comments'', ''likes'', ''shares'', ''follows'', ''messages'',
     ''notifications'', ''chats'', ''conversations'', ''groups'',
     ''events'', ''bookings'', ''reservations'', ''appointments'',
     ''schedule'', ''calendar'', ''availability'', ''tickets'',
     ''projects'', ''tasks'', ''teams'', ''employees'', ''departments'',
     ''contacts'', ''leads'', ''clients'', ''vendors'', ''partners'',
     ''logs'', ''analytics'', ''metrics'', ''reports'', ''statistics'',
     ''activities'', ''audit'', ''tracking'', ''sessions_log'',
     ''settings'', ''config'', ''preferences'', ''options'', ''themes'',
     ''templates'', ''layouts'', ''menus'', ''navigation'',
     ''locations'', ''addresses'', ''cities'', ''countries'', ''regions'',
     ''coordinates'', ''maps'', ''places'', ''venues'',
     ''courses'', ''lessons'', ''students'', ''teachers'', ''grades'',
     ''assignments'', ''exams'', ''certificates'', ''schools'',
     ''patients'', ''doctors'', ''appointments'', ''prescriptions'',
     ''treatments'', ''medical_records'', ''hospitals'', ''clinics'',
     ''properties'', ''listings'', ''agents'', ''buyers'', ''sellers'',
     ''contracts'', ''inspections'', ''valuations'',
     ''games'', ''players'', ''scores'', ''achievements'', ''levels'',
     ''tournaments'', ''matches'', ''leaderboards'',
     ''accounts'', ''transactions'', ''budgets'', ''expenses'',
     ''income'', ''investments'', ''loans'', ''assets'',
     ''data'', ''info'', ''details'', ''history'', ''archive'',
     ''backup'', ''temp'', ''cache'', ''queue'', ''jobs'']"

section \<open>Python values, exceptions and the HTTP transport\<close>

text \<open>
  The dictionaries the scanner builds and the JSON bodies it receives are Python values.
  A dictionary is an association list in insertion order; \<open>json.loads\<close> and dictionary
  literals give distinct keys.
\<close>

datatype pyval =
    PNone
  | PBool bool
  | PInt int
  | PFloat real
  | PStr string
  | PList "pyval list"
  | PDict "(string \<times> pyval) list"

type_synonym pydict = "(string \<times> pyval) list"

text \<open>An exception carries the text that \<open>str(e)\<close> returns.\<close>

datatype exn =
    Timeout string
  | OtherError string
  | KeyError string
  | IndexError string
  | TypeError string
  | AttributeError string
  | ValueError string

fun str_exn :: "exn \<Rightarrow> string" where
  "str_exn (Timeout m) = m"
| "str_exn (OtherError m) = m"
| "str_exn (KeyError m) = m"
| "str_exn (IndexError m) = m"
| "str_exn (TypeError m) = m"
| "str_exn (AttributeError m) = m"
| "str_exn (ValueError m) = m"

fun truthy :: "pyval \<Rightarrow> bool" where
  "truthy PNone = False"
| "truthy (PBool b) = b"
| "truthy (PInt i) = (i \<noteq> 0)"
| "truthy (PFloat x) = (x \<noteq> 0)"
| "truthy (PStr s) = (s \<noteq> [])"
| "truthy (PList xs) = (xs \<noteq> [])"
| "truthy (PDict d) = (d \<noteq> [])"

fun type_name :: "pyval \<Rightarrow> string" where
  \<comment> \<open>\<open>type(v).__name__\<close>\<close>
  "type_name PNone = ''NoneType''"
| "type_name (PBool b) = ''bool''"
| "type_name (PInt i) = ''int''"
| "type_name (PFloat x) = ''float''"
| "type_name (PStr s) = ''str''"
| "type_name (PList xs) = ''list''"
| "type_name (PDict d) = ''dict''"

definition quoted :: "string \<Rightarrow> string" where
  "quoted s = CHR 0x27 # s @ [CHR 0x27]"

definition getitem :: "pydict \<Rightarrow> string \<Rightarrow> exn + pyval" where
  \<comment> \<open>\<open>d[k]\<close> on a dictionary, for a key without quote characters\<close>
  "getitem d k = (case map_of d k of None \<Rightarrow> Inl (KeyError (quoted k)) | Some v \<Rightarrow> Inr v)"

fun getitem0 :: "pyval \<Rightarrow> exn + pyval" where
  \<comment> \<open>\<open>v[0]\<close>; the keys of a JSON object are strings, so \<open>0\<close> is never one of them\<close>
  "getitem0 (PList xs) =
     (case xs of [] \<Rightarrow> Inl (IndexError ''list index out of range'') | x # _ \<Rightarrow> Inr x)"
| "getitem0 (PStr s) =
     (case s of [] \<Rightarrow> Inl (IndexError ''string index out of range'') | c # _ \<Rightarrow> Inr (PStr [c]))"
| "getitem0 (PDict d) = Inl (KeyError ''0'')"
| "getitem0 v = Inl (TypeError (quoted (type_name v) @ '' object is not subscriptable''))"

fun keys :: "pyval \<Rightarrow> exn + string list" where
  \<comment> \<open>\<open>list(v.keys())\<close>\<close>
  "keys (PDict d) = Inr (map fst d)"
| "keys v = Inl (AttributeError
     (quoted (type_name v) @ '' object has no attribute '' @ quoted ''keys''))"

definition dict_get :: "pydict \<Rightarrow> string \<Rightarrow> pyval" where
  \<comment> \<open>\<open>d.get(k)\<close> on a dictionary: \<open>None\<close> for a missing key\<close>
  "dict_get d k = (case map_of d k of None \<Rightarrow> PNone | Some v \<Rightarrow> v)"

fun row_get :: "pyval \<Rightarrow> string \<Rightarrow> exn + pyval" where
  \<comment> \<open>\<open>row.get(col)\<close>\<close>
  "row_get (PDict d) col = Inr (dict_get d col)"
| "row_get v col = Inl (AttributeError
     (quoted (type_name v) @ '' object has no attribute '' @ quoted ''get''))"

function str_nat :: "nat \<Rightarrow> string" where
  "str_nat n =
     (if n < 10 then [''0123456789'' ! n] else str_nat (n div 10) @ [''0123456789'' ! (n mod 10)])"
  by pat_completeness auto
termination
  by (relation "measure id") auto

definition str_int :: "int \<Rightarrow> string" where
  \<comment> \<open>The decimal text of an integer, as an f-string formats it.\<close>
  "str_int i = (if i < 0 then CHR ''-'' # str_nat (nat (- i)) else str_nat (nat i))"

text \<open>
  \<open>requests.get\<close> either raises or returns a response; \<open>response.json()\<close> either raises
  or returns the parsed body. A request is the table name of its URL and its \<open>limit\<close>
  parameter. The server is a function of the requests made so far and the current one, so
  that probing a name twice may give two different answers; each call appends to the list
  of requests sent.
\<close>

record response =
  status_code :: int
  json :: "exn + pyval"

type_synonym request = "string \<times> nat"

type_synonym transport = "request list \<Rightarrow> request \<Rightarrow> exn + response"

definition requests_get ::
  "transport \<Rightarrow> request \<Rightarrow> request list \<Rightarrow> (exn + response) \<times> request list" where
  "requests_get tr req sent = (tr sent req, sent @ [req])"


section \<open>The probe: \<open>check_table_exists\<close>\<close>

definition check_table_exists_try :: "exn + response \<Rightarrow> exn + pydict" where
  \<comment> \<open>The \<open>try\<close> block, given what \<open>requests.get\<close> did. \<open>response.json()\<close> is called
      for status 200 only.\<close>
  "check_table_exists_try got =
     (case got of
        Inl e \<Rightarrow> Inl e
      | Inr response \<Rightarrow>
          if status_code response = 200 then
            (case json response of
               Inl e \<Rightarrow> Inl e
             | Inr sample \<Rightarrow>
                 Inr [(''exists'', PBool True), (''accessible'', PBool True),
                      (''status_code'', PInt 200), (''sample_data'', sample)])
          else if status_code response = 401 then
            Inr [(''exists'', PBool True), (''accessible'', PBool False),
                 (''status_code'', PInt 401), (''error'', PStr ''Authentication required'')]
          else if status_code response = 403 then
            Inr [(''exists'', PBool True), (''accessible'', PBool False),
                 (''status_code'', PInt 403), (''error'', PStr ''Access forbidden'')]
          else if status_code response = 404 then
            Inr [(''exists'', PBool False), (''accessible'', PBool False),
                 (''status_code'', PInt 404), (''error'', PStr ''Table not found'')]
          else
            Inr [(''exists'', PBool True), (''accessible'', PBool False),
                 (''status_code'', PInt (status_code response)),
                 (''error'', PStr (''HTTP '' @ str_int (status_code response)))])"

definition check_table_exists_result :: "exn + response \<Rightarrow> pydict" where
  \<comment> \<open>The \<open>try\<close> block with its two handlers: \<open>except requests.exceptions.Timeout\<close>
      first, \<open>except Exception as e\<close> for everything else.\<close>
  "check_table_exists_result got =
     (case check_table_exists_try got of
        Inr result \<Rightarrow> result
      | Inl (Timeout m) \<Rightarrow>
          [(''exists'', PNone), (''accessible'', PBool False),
           (''status_code'', PInt 0), (''error'', PStr ''Timeout'')]
      | Inl e \<Rightarrow>
          [(''exists'', PNone), (''accessible'', PBool False),
           (''status_code'', PInt 0), (''error'', PStr (str_exn e))])"

definition check_table_exists ::
  "transport \<Rightarrow> string \<Rightarrow> request list \<Rightarrow> pydict \<times> request list" where
  \<comment> \<open>One \<open>GET\<close> of the table's URL with \<open>limit = 1\<close>.\<close>
  "check_table_exists tr table_name sent =
     (case requests_get tr (table_name, 1) sent of
        (got, sent') \<Rightarrow> (check_table_exists_result got, sent'))"

section \<open>The scan: \<open>comprehensive_table_scan\<close>\<close>

record scan_results =
  accessible :: "pyval list"
  protected :: "pyval list"
  unknown :: "pyval list"
  not_found :: "pyval list"

definition empty_results :: scan_results where
  "empty_results = \<lparr>accessible = [], protected = [], unknown = [], not_found = []\<rparr>"

definition record_result :: "string \<Rightarrow> pydict \<Rightarrow> scan_results \<Rightarrow> exn + scan_results" where
  \<comment> \<open>The \<open>if\<close>/\<open>elif\<close>/\<open>elif\<close> of the inner loop. \<open>result['exists'] and \<dots>\<close> reads
      \<open>result['accessible']\<close> only when \<open>result['exists']\<close> is true; the chain has no
      \<open>else\<close>, so a result matching no branch leaves \<open>results\<close> as it is.\<close>
  "record_result table_name result results =
     (case getitem result ''exists'' of
        Inl e \<Rightarrow> Inl e
      | Inr ex \<Rightarrow>
          if truthy ex then
            (case getitem result ''accessible'' of
               Inl e \<Rightarrow> Inl e
             | Inr acc \<Rightarrow>
                 if truthy acc then
                   (case getitem result ''sample_data'' of
                      Inl e \<Rightarrow> Inl e
                    | Inr sample \<Rightarrow>
                        Inr (results\<lparr>accessible := accessible results @
                          [PDict [(''name'', PStr table_name), (''sample_data'', sample)]]\<rparr>))
                 else
                   (case getitem result ''error'' of
                      Inl e \<Rightarrow> Inl e
                    | Inr err \<Rightarrow>
                        (case getitem result ''status_code'' of
                           Inl e \<Rightarrow> Inl e
                         | Inr code \<Rightarrow>
                             Inr (results\<lparr>protected := protected results @
                               [PDict [(''name'', PStr table_name), (''error'', err),
                                       (''status_code'', code)]]\<rparr>))))
          else if ex = PNone then
            (case getitem result ''error'' of
               Inl e \<Rightarrow> Inl e
             | Inr err \<Rightarrow>
                 Inr (results\<lparr>unknown := unknown results @
                   [PDict [(''name'', PStr table_name), (''error'', err)]]\<rparr>))
          else Inr results)"

fun scan_batch ::
  "transport \<Rightarrow> string list \<Rightarrow> scan_results \<times> request list \<Rightarrow>
   exn + scan_results \<times> request list" where
  \<comment> \<open>\<open>for table_name in batch\<close>\<close>
  "scan_batch tr [] st = Inr st"
| "scan_batch tr (table_name # batch) (results, sent) =
     (case check_table_exists tr table_name sent of
        (result, sent') \<Rightarrow>
          (case record_result table_name result results of
             Inl e \<Rightarrow> Inl e
           | Inr results' \<Rightarrow> scan_batch tr batch (results', sent')))"

function range_step :: "nat \<Rightarrow> nat \<Rightarrow> nat \<Rightarrow> nat list" where
  \<comment> \<open>\<open>range(i, n, step)\<close> for a positive step\<close>
  "range_step i n step =
     (if i < n \<and> 0 < step then i # range_step (i + step) n step else [])"
  by pat_completeness auto
termination
  by (relation "measure (\<lambda>(i, n, step). n - i)") auto

definition slice :: "'a list \<Rightarrow> nat \<Rightarrow> nat \<Rightarrow> 'a list" where
  \<comment> \<open>\<open>xs[i:j]\<close> for \<open>0 \<le> i \<le> j\<close>\<close>
  "slice xs i j = take (j - i) (drop i xs)"

definition batch_size :: nat where
  "batch_size = 10"

fun scan_batches ::
  "transport \<Rightarrow> string list \<Rightarrow> nat list \<Rightarrow> scan_results \<times> request list \<Rightarrow>
   exn + scan_results \<times> request list" where
  \<comment> \<open>\<open>for i in range(0, total_tables, batch_size)\<close>\<close>
  "scan_batches tr common_tables [] st = Inr st"
| "scan_batches tr common_tables (i # starts) st =
     (case scan_batch tr (slice common_tables i (i + batch_size)) st of
        Inl e \<Rightarrow> Inl e
      | Inr st' \<Rightarrow> scan_batches tr common_tables starts st')"

definition comprehensive_table_scan ::
  "transport \<Rightarrow> string list \<Rightarrow> request list \<Rightarrow> exn + scan_results \<times> request list" where
  \<comment> \<open>The scan of \<open>self.common_tables\<close>, started after the requests \<open>sent\<close>; an exception
      escaping the loop is \<open>Inl\<close>.\<close>
  "comprehensive_table_scan tr common_tables sent =
     scan_batches tr common_tables
       (range_step 0 (length common_tables) batch_size) (empty_results, sent)"


section \<open>Guessing related tables: \<open>intelligent_table_discovery\<close>\<close>

definition found_tables :: "string list" where
  "found_tables = [''profiles'', ''payments'']"

definition related_to_profiles :: "string list" where
  "related_to_profiles =
     [''users'', ''accounts'', ''auth'', ''sessions'', ''user_settings'',
      ''user_roles'', ''permissions'', ''user_profiles'']"

definition related_to_payments :: "string list" where
  "related_to_payments =
     [''transactions'', ''orders'', ''invoices'', ''products'',
      ''customers'', ''receipts'', ''payment_methods'', ''subscriptions'']"

definition intelligent_guesses :: "string list" where
  \<comment> \<open>\<open>intelligent_guesses\<close> after the two \<open>extend\<close> calls\<close>
  "intelligent_guesses =
     (if ''profiles'' \<in> set found_tables then related_to_profiles else []) @
     (if ''payments'' \<in> set found_tables then related_to_payments else [])"

fun test_guesses ::
  "transport \<Rightarrow> string list \<Rightarrow> string list \<times> request list \<Rightarrow>
   exn + string list \<times> request list" where
  \<comment> \<open>\<open>for table in intelligent_guesses\<close>, with \<open>confirmed_tables\<close> and the requests sent\<close>
  "test_guesses tr [] st = Inr st"
| "test_guesses tr (table # rest) (confirmed_tables, sent) =
     (case check_table_exists tr table sent of
        (result, sent') \<Rightarrow>
          (case getitem result ''exists'' of
             Inl e \<Rightarrow> Inl e
           | Inr ex \<Rightarrow>
               if truthy ex then
                 (case getitem result ''accessible'' of
                    Inl e \<Rightarrow> Inl e
                  | Inr acc \<Rightarrow>
                      test_guesses tr rest
                        (if truthy acc then confirmed_tables @ [table] else confirmed_tables,
                         sent'))
               else test_guesses tr rest (confirmed_tables, sent')))"

definition intelligent_table_discovery ::
  "transport \<Rightarrow> request list \<Rightarrow> exn + string list \<times> request list" where
  "intelligent_table_discovery tr sent = test_guesses tr intelligent_guesses ([], sent)"

section \<open>Column summaries: \<open>get_table_schema_info\<close>\<close>

text \<open>
  \<open>max(set(value_types), key=value_types.count)\<close> walks the set in Python's iteration
  order and keeps the first element with the largest count. That order depends on string
  hashing, so it is a parameter \<open>set_order\<close>: it maps a list to the elements of its set, in
  the order of iteration.
\<close>

fun max_from :: "('a \<Rightarrow> nat) \<Rightarrow> 'a \<Rightarrow> 'a list \<Rightarrow> 'a" where
  \<comment> \<open>the loop of \<open>max\<close>: a later element replaces the best one only if its key is larger\<close>
  "max_from key best [] = best"
| "max_from key best (x # xs) = max_from key (if key best < key x then x else best) xs"

definition py_max :: "('a \<Rightarrow> nat) \<Rightarrow> 'a list \<Rightarrow> exn + 'a" where
  "py_max key xs =
     (case xs of
        [] \<Rightarrow> Inl (ValueError ''max() arg is an empty sequence'')
      | x # rest \<Rightarrow> Inr (max_from key x rest))"

fun collect_values :: "pyval list \<Rightarrow> string \<Rightarrow> exn + pyval list" where
  \<comment> \<open>\<open>[row.get(col) for row in rows if row.get(col) is not None]\<close>\<close>
  "collect_values [] col = Inr []"
| "collect_values (row # rows) col =
     (case row_get row col of
        Inl e \<Rightarrow> Inl e
      | Inr v \<Rightarrow>
          (case collect_values rows col of
             Inl e \<Rightarrow> Inl e
           | Inr vs \<Rightarrow> Inr (if v \<noteq> PNone then v # vs else vs)))"

definition column_summary ::
  "(string list \<Rightarrow> string list) \<Rightarrow> pyval list \<Rightarrow> string \<Rightarrow> exn + pyval" where
  \<comment> \<open>The value stored at \<open>column_info[col]\<close>; \<open>rows\<close> is \<open>data\<close>.\<close>
  "column_summary set_order rows col =
     (case collect_values (take 5 rows) col of
        Inl e \<Rightarrow> Inl e
      | Inr sample_values \<Rightarrow>
          if sample_values \<noteq> [] then
            (let value_types = map type_name sample_values in
             case py_max (count_list value_types) (set_order value_types) of
               Inl e \<Rightarrow> Inl e
             | Inr most_common_type \<Rightarrow>
                 Inr (PDict [(''type'', PStr most_common_type),
                             (''sample_values'', PList (take 3 sample_values))]))
          else Inr (PDict [(''type'', PStr ''unknown''), (''sample_values'', PList [])]))"

fun column_infos ::
  "(string list \<Rightarrow> string list) \<Rightarrow> pyval list \<Rightarrow> string list \<Rightarrow> pydict \<Rightarrow> exn + pydict" where
  \<comment> \<open>\<open>for col in columns: column_info[col] = \<dots>\<close>\<close>
  "column_infos set_order rows [] column_info = Inr column_info"
| "column_infos set_order rows (col # columns) column_info =
     (case column_summary set_order rows col of
        Inl e \<Rightarrow> Inl e
      | Inr summary \<Rightarrow>
          column_infos set_order rows columns (AList.update col summary column_info))"

definition rows_of :: "pyval \<Rightarrow> pyval list" where
  \<comment> \<open>The elements of \<open>data\<close> once \<open>data[0].keys()\<close> has succeeded: \<open>data\<close> is a list then.\<close>
  "rows_of data = (case data of PList rows \<Rightarrow> rows | _ \<Rightarrow> [])"

definition analyse_data :: "(string list \<Rightarrow> string list) \<Rightarrow> pyval \<Rightarrow> exn + pydict" where
  \<comment> \<open>The branch for status 200, from \<open>if data:\<close> on.\<close>
  "analyse_data set_order data =
     (if truthy data then
        (case getitem0 data of
           Inl e \<Rightarrow> Inl e
         | Inr first_row \<Rightarrow>
             (case keys first_row of
                Inl e \<Rightarrow> Inl e
              | Inr columns \<Rightarrow>
                  (case column_infos set_order (rows_of data) columns [] of
                     Inl e \<Rightarrow> Inl e
                   | Inr column_info \<Rightarrow>
                       Inr [(''success'', PBool True),
                            (''columns'', PList (map PStr columns)),
                            (''column_info'', PDict column_info),
                            (''sample_count'', PInt (int (length (rows_of data)))),
                            (''sample_data'', data)])))
      else
        Inr [(''success'', PBool True), (''columns'', PList []), (''column_info'', PDict []),
             (''sample_count'', PInt 0), (''sample_data'', PList [])])"

definition get_table_schema_info_try ::
  "(string list \<Rightarrow> string list) \<Rightarrow> exn + response \<Rightarrow> exn + pydict" where
  "get_table_schema_info_try set_order got =
     (case got of
        Inl e \<Rightarrow> Inl e
      | Inr response \<Rightarrow>
          if status_code response = 200 then
            (case json response of
               Inl e \<Rightarrow> Inl e
             | Inr data \<Rightarrow> analyse_data set_order data)
          else
            Inr [(''success'', PBool False),
                 (''error'', PStr (''HTTP '' @ str_int (status_code response)))])"

definition get_table_schema_info_result ::
  "(string list \<Rightarrow> string list) \<Rightarrow> exn + response \<Rightarrow> pydict" where
  \<comment> \<open>The \<open>try\<close> block with its handler \<open>except Exception as e\<close>.\<close>
  "get_table_schema_info_result set_order got =
     (case get_table_schema_info_try set_order got of
        Inr info \<Rightarrow> info
      | Inl e \<Rightarrow> [(''success'', PBool False), (''error'', PStr (str_exn e))])"

definition get_table_schema_info ::
  "(string list \<Rightarrow> string list) \<Rightarrow> transport \<Rightarrow> string \<Rightarrow> request list \<Rightarrow>
   pydict \<times> request list" where
  \<comment> \<open>One \<open>GET\<close> of the table's URL with \<open>limit = 10\<close>.\<close>
  "get_table_schema_info set_order tr table_name sent =
     (case requests_get tr (table_name, 10) sent of
        (got, sent') \<Rightarrow> (get_table_schema_info_result set_order got, sent'))"

section \<open>Servers used as concrete inputs\<close>

definition transport_404 :: transport where
  \<comment> \<open>A server on which no table exists: every request is answered with status 404.\<close>
  "transport_404 sent req = Inr \<lparr>status_code = 404, json = Inr (PDict [])\<rparr>"
section \<open>Properties of candidate generation\<close>

lemma fold_add_prefix_mono: "V \<subseteq> fold add_prefix ps V"
proof (induction ps arbitrary: V)
  case Nil
  show ?case by simp
next
  case (Cons p ps)
  have "V \<subseteq> add_prefix p V" by (simp add: add_prefix_def)
  also have "\<dots> \<subseteq> fold add_prefix ps (add_prefix p V)" by (rule Cons.IH)
  finally show ?case by simp
qed

lemma fold_add_suffix_mono: "V \<subseteq> fold add_suffix ss V"
proof (induction ss arbitrary: V)
  case Nil
  show ?case by simp
next
  case (Cons s ss)
  have "V \<subseteq> add_suffix s V" by (simp add: add_suffix_def)
  also have "\<dots> \<subseteq> fold add_suffix ss (add_suffix s V)" by (rule Cons.IH)
  finally show ?case by simp
qed

lemma fold_add_singular_mono: "V \<subseteq> fold add_singular ts V"
proof (induction ts arbitrary: V)
  case Nil
  show ?case by simp
next
  case (Cons t ts)
  have "V \<subseteq> add_singular t V" by (auto simp: add_singular_def)
  also have "\<dots> \<subseteq> fold add_singular ts (add_singular t V)" by (rule Cons.IH)
  finally show ?case by simp
qed

lemma fold_add_prefix_mem: "p \<in> set ps \<Longrightarrow> t \<in> V \<Longrightarrow> p @ t \<in> fold add_prefix ps V"
proof (induction ps arbitrary: V)
  case Nil
  then show ?case by simp
next
  case (Cons q qs)
  show ?case
  proof (cases "p = q")
    case True
    with Cons.prems have "p @ t \<in> add_prefix q V" by (simp add: add_prefix_def)
    then show ?thesis using fold_add_prefix_mono [of "add_prefix q V" qs] by auto
  next
    case False
    with Cons.prems have "p \<in> set qs" and "t \<in> add_prefix q V" by (auto simp: add_prefix_def)
    then show ?thesis using Cons.IH by simp
  qed
qed

lemma fold_add_suffix_mem: "s \<in> set ss \<Longrightarrow> t \<in> V \<Longrightarrow> t @ s \<in> fold add_suffix ss V"
proof (induction ss arbitrary: V)
  case Nil
  then show ?case by simp
next
  case (Cons q qs)
  show ?case
  proof (cases "s = q")
    case True
    with Cons.prems have "t @ s \<in> add_suffix q V" by (simp add: add_suffix_def)
    then show ?thesis using fold_add_suffix_mono [of "add_suffix q V" qs] by auto
  next
    case False
    with Cons.prems have "s \<in> set qs" and "t \<in> add_suffix q V" by (auto simp: add_suffix_def)
    then show ?thesis using Cons.IH by simp
  qed
qed

lemma finite_fold_add_prefix: "finite V \<Longrightarrow> finite (fold add_prefix ps V)"
  by (induction ps arbitrary: V) (auto simp: add_prefix_def)

lemma finite_fold_add_suffix: "finite V \<Longrightarrow> finite (fold add_suffix ss V)"
  by (induction ss arbitrary: V) (auto simp: add_suffix_def)

lemma finite_fold_add_singular: "finite V \<Longrightarrow> finite (fold add_singular ts V)"
  by (induction ts arbitrary: V) (auto simp: add_singular_def)

lemma finite_variations_of: "finite (variations_of ts)"
  unfolding variations_of_def
  by (intro finite_fold_add_suffix finite_fold_add_prefix finite_fold_add_singular) simp

lemma set_generate: "set (generate_table_variations ts) = variations_of ts"
  by (simp add: generate_table_variations_def finite_variations_of)

lemma seeds_in_variations: "set ts \<subseteq> variations_of ts"
  unfolding variations_of_def
  using fold_add_singular_mono [of "set ts" ts]
    fold_add_prefix_mono [of "fold add_singular ts (set ts)" prefixes]
    fold_add_suffix_mono [of "fold add_prefix prefixes (fold add_singular ts (set ts))" suffixes]
  by blast

lemma fold_add_prefix_char:
  "\<forall>p \<in> set ps. c \<in> set p \<Longrightarrow> x \<in> fold add_prefix ps V \<Longrightarrow> x \<in> V \<or> c \<in> set x"
  by (induction ps arbitrary: V) (fastforce simp: add_prefix_def)+

lemma fold_add_suffix_char:
  "\<forall>s \<in> set ss. c \<in> set s \<Longrightarrow> x \<in> fold add_suffix ss V \<Longrightarrow> x \<in> V \<or> c \<in> set x"
  by (induction ss arbitrary: V) (fastforce simp: add_suffix_def)+

lemma variations_of_underscore:
  assumes "x \<in> variations_of ts"
  shows "x \<in> fold add_singular ts (set ts) \<or> CHR ''_'' \<in> set x"
proof -
  have p: "\<forall>p \<in> set prefixes. CHR ''_'' \<in> set p" by (simp add: prefixes_def)
  have s: "\<forall>s \<in> set suffixes. CHR ''_'' \<in> set s" by (simp add: suffixes_def)
  from assms fold_add_suffix_char [OF s] fold_add_prefix_char [OF p]
  show ?thesis unfolding variations_of_def by blast
qed


section \<open>Properties of the probe and of the scan loop\<close>

lemma check_result_shapes:
  "(\<exists>sample. check_table_exists_result got =
      [(''exists'', PBool True), (''accessible'', PBool True),
       (''status_code'', PInt 200), (''sample_data'', sample)])
   \<or> (\<exists>c m. check_table_exists_result got =
      [(''exists'', PBool True), (''accessible'', PBool False),
       (''status_code'', PInt c), (''error'', PStr m)])
   \<or> check_table_exists_result got =
      [(''exists'', PBool False), (''accessible'', PBool False),
       (''status_code'', PInt 404), (''error'', PStr ''Table not found'')]
   \<or> (\<exists>m. check_table_exists_result got =
      [(''exists'', PNone), (''accessible'', PBool False),
       (''status_code'', PInt 0), (''error'', PStr m)])"
  by (simp add: check_table_exists_result_def check_table_exists_try_def
      split: sum.split exn.split)

lemma record_result_accessible:
  "record_result name
     [(''exists'', PBool True), (''accessible'', PBool True),
      (''status_code'', PInt 200), (''sample_data'', sample)] results =
   Inr (results\<lparr>accessible := accessible results @
          [PDict [(''name'', PStr name), (''sample_data'', sample)]]\<rparr>)"
  by (simp add: record_result_def getitem_def)

lemma record_result_protected:
  "record_result name
     [(''exists'', PBool True), (''accessible'', PBool False),
      (''status_code'', c), (''error'', m)] results =
   Inr (results\<lparr>protected := protected results @
          [PDict [(''name'', PStr name), (''error'', m), (''status_code'', c)]]\<rparr>)"
  by (simp add: record_result_def getitem_def)

lemma record_result_absent:
  "record_result name
     [(''exists'', PBool False), (''accessible'', a),
      (''status_code'', c), (''error'', m)] results = Inr results"
  by (simp add: record_result_def getitem_def)

lemma record_result_unknown:
  "record_result name
     [(''exists'', PNone), (''accessible'', a),
      (''status_code'', c), (''error'', m)] results =
   Inr (results\<lparr>unknown := unknown results @
          [PDict [(''name'', PStr name), (''error'', m)]]\<rparr>)"
  by (simp add: record_result_def getitem_def)

lemma record_result_total:
  "\<exists>results'. record_result name (check_table_exists_result got) results = Inr results'
     \<and> not_found results' = not_found results"
  using check_result_shapes [of got]
  by (auto simp: record_result_accessible record_result_protected record_result_absent
      record_result_unknown)


lemma check_table_exists_sent:
  "snd (check_table_exists tr name sent) = sent @ [(name, 1)]"
  by (simp add: check_table_exists_def requests_get_def)

lemma check_table_exists_fst:
  "fst (check_table_exists tr name sent) = check_table_exists_result (tr sent (name, 1))"
  by (simp add: check_table_exists_def requests_get_def)

lemma scan_batch_total:
  "\<exists>results'. scan_batch tr batch (results, sent) = Inr (results', sent @ map (\<lambda>t. (t, 1)) batch)
     \<and> not_found results' = not_found results"
proof (induction batch arbitrary: results sent)
  case Nil
  show ?case by simp
next
  case (Cons t batch)
  obtain r where r: "record_result t (check_table_exists_result (tr sent (t, 1))) results = Inr r"
    and nf: "not_found r = not_found results"
    using record_result_total by blast
  from Cons.IH [of r "sent @ [(t, 1)]"] r nf show ?case
    by (simp add: check_table_exists_def requests_get_def)
qed

lemma scan_batch_append:
  "scan_batch tr (xs @ ys) st =
     (case scan_batch tr xs st of Inl e \<Rightarrow> Inl e | Inr st' \<Rightarrow> scan_batch tr ys st')"
proof (induction xs arbitrary: st)
  case Nil
  show ?case by simp
next
  case (Cons x xs)
  obtain results sent where st: "st = (results, sent)" by (cases st)
  show ?case using Cons.IH
    by (simp add: st split: prod.split sum.split)
qed

lemma scan_batches_concat:
  "scan_batches tr tables starts st =
     scan_batch tr (concat (map (\<lambda>i. slice tables i (i + batch_size)) starts)) st"
  by (induction starts arbitrary: st) (simp_all add: scan_batch_append split: sum.split)

lemma concat_slices:
  "0 < b \<Longrightarrow> concat (map (\<lambda>i. slice xs i (i + b)) (range_step i (length xs) b)) = drop i xs"
proof (induction i "length xs" b rule: range_step.induct)
  case (1 i step)
  show ?case
  proof (cases "i < length xs")
    case True
    with 1 have "concat (map (\<lambda>i. slice xs i (i + step)) (range_step (i + step) (length xs) step))
        = drop (i + step) xs" by simp
    moreover have "range_step i (length xs) step = i # range_step (i + step) (length xs) step"
      using True 1(2) by (subst range_step.simps) simp
    moreover have "slice xs i (i + step) @ drop (i + step) xs = drop i xs"
      by (simp add: slice_def add.commute[of i step] flip: drop_drop)
    ultimately show ?thesis by simp
  next
    case False
    then show ?thesis by (subst range_step.simps) simp
  qed
qed

lemma scan_is_one_pass:
  "comprehensive_table_scan tr tables sent = scan_batch tr tables (empty_results, sent)"
  using concat_slices [of batch_size tables 0]
  by (simp add: comprehensive_table_scan_def scan_batches_concat batch_size_def)


lemma check_result_exn:
  "\<exists>detail. check_table_exists_result (Inl e) =
     [(''exists'', PNone), (''accessible'', PBool False),
      (''status_code'', PInt 0), (''error'', PStr detail)]"
  by (cases e) (simp_all add: check_table_exists_result_def check_table_exists_try_def)

lemma check_result_try_exn:
  "check_table_exists_try got = Inl e \<Longrightarrow>
   \<exists>detail. check_table_exists_result got =
     [(''exists'', PNone), (''accessible'', PBool False),
      (''status_code'', PInt 0), (''error'', PStr detail)]"
  by (cases e) (simp_all add: check_table_exists_result_def)

lemma check_result_200_parsed:
  "status_code r = 200 \<Longrightarrow> json r = Inr data \<Longrightarrow>
   check_table_exists_result (Inr r) =
     [(''exists'', PBool True), (''accessible'', PBool True),
      (''status_code'', PInt 200), (''sample_data'', data)]"
  by (simp add: check_table_exists_result_def check_table_exists_try_def)

lemma check_result_200_unparsed:
  "status_code r = 200 \<Longrightarrow> json r = Inl e \<Longrightarrow>
   \<exists>detail. check_table_exists_result (Inr r) =
     [(''exists'', PNone), (''accessible'', PBool False),
      (''status_code'', PInt 0), (''error'', PStr detail)]"
  by (rule check_result_try_exn [of _ e]) (simp add: check_table_exists_try_def)

lemma check_result_404:
  "status_code r = 404 \<Longrightarrow>
   check_table_exists_result (Inr r) =
     [(''exists'', PBool False), (''accessible'', PBool False),
      (''status_code'', PInt 404), (''error'', PStr ''Table not found'')]"
  by (simp add: check_table_exists_result_def check_table_exists_try_def)

lemma check_result_other:
  "status_code r \<noteq> 200 \<Longrightarrow> status_code r \<noteq> 404 \<Longrightarrow>
   check_table_exists_result (Inr r) =
     [(''exists'', PBool True), (''accessible'', PBool False),
      (''status_code'', PInt (status_code r)),
      (''error'', PStr (if status_code r = 401 then ''Authentication required''
                        else if status_code r = 403 then ''Access forbidden''
                        else ''HTTP '' @ str_int (status_code r)))]"
  by (simp add: check_table_exists_result_def check_table_exists_try_def)


section \<open>Further properties of generation, discovery and formatting\<close>

lemma in_variations_of:
  assumes "t \<in> fold add_singular ts (set ts)"
  shows "t \<in> variations_of ts"
    and "p \<in> set prefixes \<Longrightarrow> p @ t \<in> variations_of ts"
    and "s \<in> set suffixes \<Longrightarrow> t @ s \<in> variations_of ts"
    and "p \<in> set prefixes \<Longrightarrow> s \<in> set suffixes \<Longrightarrow> p @ t @ s \<in> variations_of ts"
proof -
  let ?B = "fold add_singular ts (set ts)"
  let ?P = "fold add_prefix prefixes ?B"
  have tP: "t \<in> ?P" using assms fold_add_prefix_mono [of ?B prefixes] by blast
  then show "t \<in> variations_of ts"
    unfolding variations_of_def using fold_add_suffix_mono [of ?P suffixes] by blast
  show "p @ t \<in> variations_of ts" if "p \<in> set prefixes"
  proof -
    have "p @ t \<in> ?P" using that assms by (rule fold_add_prefix_mem)
    then show ?thesis
      unfolding variations_of_def using fold_add_suffix_mono [of ?P suffixes] by blast
  qed
  show "t @ s \<in> variations_of ts" if "s \<in> set suffixes"
    unfolding variations_of_def using that tP by (rule fold_add_suffix_mem)
  show "p @ t @ s \<in> variations_of ts" if "p \<in> set prefixes" and "s \<in> set suffixes"
  proof -
    have "p @ t \<in> ?P" using that(1) assms by (rule fold_add_prefix_mem)
    with that(2) have "(p @ t) @ s \<in> fold add_suffix suffixes ?P" by (rule fold_add_suffix_mem)
    then show ?thesis unfolding variations_of_def by simp
  qed
qed

lemma seed_in_base: "t \<in> set ts \<Longrightarrow> t \<in> fold add_singular ts (set ts)"
  using fold_add_singular_mono [of "set ts" ts] by blast

lemma test_guesses_sent:
  "\<exists>confirmed. test_guesses tr guesses (c0, sent) =
     Inr (confirmed, sent @ map (\<lambda>t. (t, 1)) guesses)"
proof (induction guesses arbitrary: c0 sent)
  case Nil
  show ?case by simp
next
  case (Cons t guesses)
  let ?r = "check_table_exists_result (tr sent (t, 1))"
  from check_result_shapes [of "tr sent (t, 1)"]
  consider (acc) "getitem ?r ''exists'' = Inr (PBool True)" "getitem ?r ''accessible'' = Inr (PBool True)"
    | (prot) "getitem ?r ''exists'' = Inr (PBool True)" "getitem ?r ''accessible'' = Inr (PBool False)"
    | (absent) "getitem ?r ''exists'' = Inr (PBool False)"
    | (unk) "getitem ?r ''exists'' = Inr PNone"
    by (auto simp: getitem_def)
  then show ?case
  proof cases
    case acc
    with Cons.IH [of "c0 @ [t]" "sent @ [(t, 1)]"] show ?thesis
      by (simp add: check_table_exists_def requests_get_def)
  next
    case prot
    with Cons.IH [of c0 "sent @ [(t, 1)]"] show ?thesis
      by (simp add: check_table_exists_def requests_get_def)
  next
    case absent
    with Cons.IH [of c0 "sent @ [(t, 1)]"] show ?thesis
      by (simp add: check_table_exists_def requests_get_def)
  next
    case unk
    with Cons.IH [of c0 "sent @ [(t, 1)]"] show ?thesis
      by (simp add: check_table_exists_def requests_get_def)
  qed
qed

lemma intelligent_guesses_list:
  "intelligent_guesses =
     [''users'', ''accounts'', ''auth'', ''sessions'', ''user_settings'',
      ''user_roles'', ''permissions'', ''user_profiles'',
      ''transactions'', ''orders'', ''invoices'', ''products'',
      ''customers'', ''receipts'', ''payment_methods'', ''subscriptions'']"
  by (simp add: intelligent_guesses_def found_tables_def related_to_profiles_def
      related_to_payments_def)

lemma test_guesses_404:
  "test_guesses transport_404 guesses (c0, sent) = Inr (c0, sent @ map (\<lambda>t. (t, 1)) guesses)"
  by (induction guesses arbitrary: sent)
     (simp_all add: check_table_exists_def requests_get_def transport_404_def check_result_404
       getitem_def)

lemma str_int_500: "str_int 500 = ''500''"
  by (simp add: str_int_def)

section \<open>Properties of schema inference\<close>

lemma collect_values_dicts:
  "collect_values (map PDict ds) col =
     Inr (filter (\<lambda>v. v \<noteq> PNone) (map (\<lambda>d. dict_get d col) ds))"
  by (induction ds) simp_all

lemma max_from_mem: "max_from key best xs \<in> insert best (set xs)"
  by (induction xs arbitrary: best) (simp, force)

lemma max_from_ge: "x \<in> insert best (set xs) \<Longrightarrow> key x \<le> key (max_from key best xs)"
proof (induction xs arbitrary: best x)
  case Nil
  then show ?case by simp
next
  case (Cons y ys)
  define b where "b = (if key best < key y then y else best)"
  have b: "key best \<le> key b" "key y \<le> key b" by (simp_all add: b_def)
  have step: "max_from key best (y # ys) = max_from key b ys" by (simp add: b_def)
  have top: "key b \<le> key (max_from key b ys)" by (rule Cons.IH) simp
  from Cons.prems consider "x = best" | "x = y" | "x \<in> set ys" by auto
  then show ?case
  proof cases
    case 1
    with b(1) top show ?thesis by (simp only: step)
  next
    case 2
    with b(2) top show ?thesis by (simp only: step)
  next
    case 3
    then have "key x \<le> key (max_from key b ys)" by (intro Cons.IH) simp
    then show ?thesis by (simp only: step)
  qed
qed

lemma py_max_spec:
  assumes "xs \<noteq> []"
  shows "\<exists>m. py_max key xs = Inr m \<and> m \<in> set xs \<and> (\<forall>x \<in> set xs. key x \<le> key m)"
proof -
  from assms obtain y ys where xs: "xs = y # ys" by (cases xs) auto
  have "max_from key y ys \<in> set xs" using max_from_mem [of key y ys] by (simp add: xs)
  moreover have "\<forall>x \<in> set xs. key x \<le> key (max_from key y ys)"
    using max_from_ge [of _ y ys key] by (simp add: xs)
  ultimately show ?thesis by (simp add: py_max_def xs)
qed

lemma column_summary_dicts:
  assumes so: "\<And>xs. set (set_order xs) = set xs"
    and vals_def: "vals = filter (\<lambda>v. v \<noteq> PNone) (map (\<lambda>d. dict_get d col) (take 5 ds))"
  shows "\<exists>T. column_summary set_order (map PDict ds) col =
           Inr (PDict [(''type'', PStr T), (''sample_values'', PList (take 3 vals))])
         \<and> (if vals = [] then T = ''unknown''
            else T \<in> set (map type_name vals)
              \<and> (\<forall>T'. count_list (map type_name vals) T' \<le> count_list (map type_name vals) T))"
proof -
  have cv: "collect_values (take 5 (map PDict ds)) col = Inr vals"
    by (simp add: vals_def take_map collect_values_dicts)
  show ?thesis
  proof (cases "vals = []")
    case True
    then show ?thesis by (simp add: column_summary_def cv)
  next
    case False
    let ?vt = "map type_name vals"
    have "set_order ?vt \<noteq> []" using so [of ?vt] False by auto
    from py_max_spec [OF this, of "count_list ?vt"]
    obtain T where T: "py_max (count_list ?vt) (set_order ?vt) = Inr T"
      and mem: "T \<in> set ?vt" and ge: "\<forall>x \<in> set ?vt. count_list ?vt x \<le> count_list ?vt T"
      by (auto simp: so)
    have "count_list ?vt T' \<le> count_list ?vt T" for T'
    proof (cases "T' \<in> set ?vt")
      case True
      with ge show ?thesis by blast
    next
      case False
      then have "count_list ?vt T' = 0" by (simp add: count_list_0_iff)
      then show ?thesis by simp
    qed
    with T mem False show ?thesis
      by (intro exI [of _ T]) (simp add: column_summary_def cv)
  qed
qed

lemma column_infos_spec:
  assumes "\<And>col. col \<in> set cols \<Longrightarrow> \<exists>s. column_summary so rows col = Inr s \<and> P col s"
  shows "\<exists>ci. column_infos so rows cols ci0 = Inr ci
           \<and> fst ` set ci = fst ` set ci0 \<union> set cols
           \<and> (\<forall>col \<in> set cols. \<exists>s. map_of ci col = Some s \<and> P col s)
           \<and> (\<forall>col. col \<notin> set cols \<longrightarrow> map_of ci col = map_of ci0 col)"
  using assms
proof (induction cols arbitrary: ci0)
  case Nil
  show ?case by simp
next
  case (Cons c cols)
  from Cons.prems [of c] obtain s where s: "column_summary so rows c = Inr s" and Ps: "P c s"
    by auto
  let ?ci1 = "AList.update c s ci0"
  have "\<exists>ci. column_infos so rows cols ?ci1 = Inr ci
           \<and> fst ` set ci = fst ` set ?ci1 \<union> set cols
           \<and> (\<forall>col \<in> set cols. \<exists>s. map_of ci col = Some s \<and> P col s)
           \<and> (\<forall>col. col \<notin> set cols \<longrightarrow> map_of ci col = map_of ?ci1 col)"
    by (rule Cons.IH) (simp add: Cons.prems)
  then obtain ci where ci: "column_infos so rows cols ?ci1 = Inr ci"
    and dom: "fst ` set ci = fst ` set ?ci1 \<union> set cols"
    and inn: "\<forall>col \<in> set cols. \<exists>s. map_of ci col = Some s \<and> P col s"
    and out: "\<forall>col. col \<notin> set cols \<longrightarrow> map_of ci col = map_of ?ci1 col"
    by blast
  have 1: "column_infos so rows (c # cols) ci0 = Inr ci" by (simp add: s ci)
  have 2: "fst ` set ci = fst ` set ci0 \<union> set (c # cols)"
    using dom by (simp add: dom_update)
  have 3: "\<forall>col \<in> set (c # cols). \<exists>s. map_of ci col = Some s \<and> P col s"
  proof
    fix col assume "col \<in> set (c # cols)"
    show "\<exists>s. map_of ci col = Some s \<and> P col s"
    proof (cases "col \<in> set cols")
      case True
      with inn show ?thesis by blast
    next
      case False
      with \<open>col \<in> set (c # cols)\<close> have "col = c" by simp
      with False out have "map_of ci col = map_of ?ci1 c" by simp
      then have "map_of ci col = Some s" by (simp add: update_conv')
      with Ps \<open>col = c\<close> show ?thesis by simp
    qed
  qed
  have 4: "\<forall>col. col \<notin> set (c # cols) \<longrightarrow> map_of ci col = map_of ci0 col"
    using out by (simp add: update_conv')
  from 1 2 3 4 show ?case by blast
qed

lemma schema_result_200:
  "get_table_schema_info_result so (Inr \<lparr>status_code = 200, json = Inr data\<rparr>) =
     (case analyse_data so data of
        Inr info \<Rightarrow> info
      | Inl e \<Rightarrow> [(''success'', PBool False), (''error'', PStr (str_exn e))])"
  by (simp add: get_table_schema_info_result_def get_table_schema_info_try_def)

lemma analyse_data_dicts:
  "analyse_data so (PList (map PDict (d # ds))) =
     (case column_infos so (map PDict (d # ds)) (map fst d) [] of
        Inl e \<Rightarrow> Inl e
      | Inr column_info \<Rightarrow>
          Inr [(''success'', PBool True),
               (''columns'', PList (map PStr (map fst d))),
               (''column_info'', PDict column_info),
               (''sample_count'', PInt (int (length (d # ds)))),
               (''sample_data'', PList (map PDict (d # ds)))])"
  by (simp add: analyse_data_def rows_of_def split: sum.split)


section \<open>The generated set, exactly\<close>

lemma set_subseqs_snoc:
  "set (subseqs (xs @ [x])) = set (subseqs xs) \<union> (\<lambda>ys. ys @ [x]) ` set (subseqs xs)"
  by (induction xs) (auto simp: Let_def image_Un image_image)

lemma set_subseqs_rev: "set (subseqs (rev xs)) = rev ` set (subseqs xs)"
proof (induction xs)
  case Nil
  show ?case by simp
next
  case (Cons x xs)
  have "set (subseqs (rev (x # xs))) =
      rev ` set (subseqs xs) \<union> (\<lambda>ys. ys @ [x]) ` rev ` set (subseqs xs)"
    by (simp add: set_subseqs_snoc Cons.IH)
  also have "\<dots> = rev ` set (subseqs (x # xs))"
    by (auto simp: Let_def image_Un image_image)
  finally show ?case .
qed

lemma foldr_add_prefix_iff:
  "x \<in> foldr add_prefix qs V \<longleftrightarrow>
     (\<exists>xs t. xs \<in> set (subseqs qs) \<and> t \<in> V \<and> x = concat xs @ t)"
proof (induction qs arbitrary: x)
  case Nil
  show ?case by simp
next
  case (Cons q qs)
  show ?case
  proof
    assume "x \<in> foldr add_prefix (q # qs) V"
    then consider "x \<in> foldr add_prefix qs V"
      | y where "y \<in> foldr add_prefix qs V" "x = q @ y"
      by (auto simp: add_prefix_def)
    then show "\<exists>xs t. xs \<in> set (subseqs (q # qs)) \<and> t \<in> V \<and> x = concat xs @ t"
    proof cases
      case 1
      with Cons.IH obtain xs t where "xs \<in> set (subseqs qs)" "t \<in> V" "x = concat xs @ t"
        by blast
      moreover from this have "xs \<in> set (subseqs (q # qs))" by (simp add: Let_def)
      ultimately show ?thesis by blast
    next
      case 2
      with Cons.IH obtain xs t where xs: "xs \<in> set (subseqs qs)" and t: "t \<in> V"
        and y: "y = concat xs @ t" by blast
      have "q # xs \<in> set (subseqs (q # qs))" using xs by (simp add: Let_def)
      moreover have "x = concat (q # xs) @ t" by (simp add: 2 y)
      ultimately show ?thesis using t by blast
    qed
  next
    assume "\<exists>xs t. xs \<in> set (subseqs (q # qs)) \<and> t \<in> V \<and> x = concat xs @ t"
    then obtain xs t where xs: "xs \<in> set (subseqs (q # qs))" and t: "t \<in> V"
      and x: "x = concat xs @ t" by blast
    from xs consider "xs \<in> set (subseqs qs)"
      | ys where "ys \<in> set (subseqs qs)" "xs = q # ys"
      by (auto simp: Let_def)
    then show "x \<in> foldr add_prefix (q # qs) V"
    proof cases
      case 1
      then have "x \<in> foldr add_prefix qs V" using Cons.IH t x by blast
      then show ?thesis by (simp add: add_prefix_def)
    next
      case 2
      then have "concat ys @ t \<in> foldr add_prefix qs V" using Cons.IH t by blast
      moreover have "x = q @ (concat ys @ t)" by (simp add: x 2)
      ultimately show ?thesis by (simp add: add_prefix_def)
    qed
  qed
qed

lemma foldr_add_suffix_iff:
  "x \<in> foldr add_suffix qs V \<longleftrightarrow>
     (\<exists>xs t. xs \<in> set (subseqs qs) \<and> t \<in> V \<and> x = t @ concat (rev xs))"
proof (induction qs arbitrary: x)
  case Nil
  show ?case by simp
next
  case (Cons q qs)
  show ?case
  proof
    assume "x \<in> foldr add_suffix (q # qs) V"
    then consider "x \<in> foldr add_suffix qs V"
      | y where "y \<in> foldr add_suffix qs V" "x = y @ q"
      by (auto simp: add_suffix_def)
    then show "\<exists>xs t. xs \<in> set (subseqs (q # qs)) \<and> t \<in> V \<and> x = t @ concat (rev xs)"
    proof cases
      case 1
      with Cons.IH obtain xs t where "xs \<in> set (subseqs qs)" "t \<in> V"
        "x = t @ concat (rev xs)" by blast
      moreover from this have "xs \<in> set (subseqs (q # qs))" by (simp add: Let_def)
      ultimately show ?thesis by blast
    next
      case 2
      with Cons.IH obtain xs t where xs: "xs \<in> set (subseqs qs)" and t: "t \<in> V"
        and y: "y = t @ concat (rev xs)" by blast
      have "q # xs \<in> set (subseqs (q # qs))" using xs by (simp add: Let_def)
      moreover have "x = t @ concat (rev (q # xs))" by (simp add: 2 y)
      ultimately show ?thesis using t by blast
    qed
  next
    assume "\<exists>xs t. xs \<in> set (subseqs (q # qs)) \<and> t \<in> V \<and> x = t @ concat (rev xs)"
    then obtain xs t where xs: "xs \<in> set (subseqs (q # qs))" and t: "t \<in> V"
      and x: "x = t @ concat (rev xs)" by blast
    from xs consider "xs \<in> set (subseqs qs)"
      | ys where "ys \<in> set (subseqs qs)" "xs = q # ys"
      by (auto simp: Let_def)
    then show "x \<in> foldr add_suffix (q # qs) V"
    proof cases
      case 1
      then have "x \<in> foldr add_suffix qs V" using Cons.IH t x by blast
      then show ?thesis by (simp add: add_suffix_def)
    next
      case 2
      then have "t @ concat (rev ys) \<in> foldr add_suffix qs V" using Cons.IH t by blast
      moreover have "x = (t @ concat (rev ys)) @ q" by (simp add: x 2)
      ultimately show ?thesis by (simp add: add_suffix_def)
    qed
  qed
qed

lemma fold_add_prefix_iff:
  "x \<in> fold add_prefix ps V \<longleftrightarrow>
     (\<exists>xs t. xs \<in> set (subseqs (rev ps)) \<and> t \<in> V \<and> x = concat xs @ t)"
  using foldr_add_prefix_iff [of x "rev ps" V] by (simp add: foldr_conv_fold)

lemma fold_add_suffix_iff:
  "x \<in> fold add_suffix ss V \<longleftrightarrow>
     (\<exists>xs t. xs \<in> set (subseqs ss) \<and> t \<in> V \<and> x = t @ concat xs)"
proof -
  have "x \<in> fold add_suffix ss V \<longleftrightarrow>
     (\<exists>xs t. xs \<in> set (subseqs (rev ss)) \<and> t \<in> V \<and> x = t @ concat (rev xs))"
    using foldr_add_suffix_iff [of x "rev ss" V] by (simp add: foldr_conv_fold)
  also have "\<dots> \<longleftrightarrow> (\<exists>xs t. xs \<in> set (subseqs ss) \<and> t \<in> V \<and> x = t @ concat xs)"
  proof
    assume "\<exists>xs t. xs \<in> set (subseqs (rev ss)) \<and> t \<in> V \<and> x = t @ concat (rev xs)"
    then obtain xs t where xs0: "xs \<in> set (subseqs (rev ss))" and t: "t \<in> V"
      and x: "x = t @ concat (rev xs)" by blast
    from xs0 have xs: "xs \<in> rev ` set (subseqs ss)" by (simp only: set_subseqs_rev)
    from xs obtain ys where "ys \<in> set (subseqs ss)" "xs = rev ys" by blast
    with t x show "\<exists>xs t. xs \<in> set (subseqs ss) \<and> t \<in> V \<and> x = t @ concat xs"
      by (intro exI [of _ ys] exI [of _ t]) simp
  next
    assume "\<exists>xs t. xs \<in> set (subseqs ss) \<and> t \<in> V \<and> x = t @ concat xs"
    then obtain xs t where xs: "xs \<in> set (subseqs ss)" and t: "t \<in> V"
      and x: "x = t @ concat xs" by blast
    from xs have "rev xs \<in> set (subseqs (rev ss))" by (simp add: set_subseqs_rev)
    with t x show "\<exists>xs t. xs \<in> set (subseqs (rev ss)) \<and> t \<in> V \<and> x = t @ concat (rev xs)"
      by (intro exI [of _ "rev xs"] exI [of _ t]) simp
  qed
  finally show ?thesis .
qed

lemma variations_of_iff:
  "x \<in> variations_of seeds \<longleftrightarrow>
     (\<exists>ps t ss. ps \<in> set (subseqs (rev prefixes))
        \<and> t \<in> fold add_singular seeds (set seeds)
        \<and> ss \<in> set (subseqs suffixes)
        \<and> x = concat ps @ t @ concat ss)"
proof
  assume "x \<in> variations_of seeds"
  then obtain ss y where ss: "ss \<in> set (subseqs suffixes)"
    and y: "y \<in> fold add_prefix prefixes (fold add_singular seeds (set seeds))"
    and x: "x = y @ concat ss"
    unfolding variations_of_def fold_add_suffix_iff by blast
  from y obtain ps t where ps: "ps \<in> set (subseqs (rev prefixes))"
    and t: "t \<in> fold add_singular seeds (set seeds)" and y': "y = concat ps @ t"
    unfolding fold_add_prefix_iff by blast
  have "x = concat ps @ t @ concat ss" by (simp add: x y')
  with ps t ss show "\<exists>ps t ss. ps \<in> set (subseqs (rev prefixes))
        \<and> t \<in> fold add_singular seeds (set seeds)
        \<and> ss \<in> set (subseqs suffixes)
        \<and> x = concat ps @ t @ concat ss" by blast
next
  assume "\<exists>ps t ss. ps \<in> set (subseqs (rev prefixes))
        \<and> t \<in> fold add_singular seeds (set seeds)
        \<and> ss \<in> set (subseqs suffixes)
        \<and> x = concat ps @ t @ concat ss"
  then obtain ps t ss where ps: "ps \<in> set (subseqs (rev prefixes))"
    and t: "t \<in> fold add_singular seeds (set seeds)"
    and ss: "ss \<in> set (subseqs suffixes)" and x: "x = concat ps @ t @ concat ss" by blast
  from ps t have "concat ps @ t \<in> fold add_prefix prefixes (fold add_singular seeds (set seeds))"
    unfolding fold_add_prefix_iff by blast
  with ss have "(concat ps @ t) @ concat ss \<in> variations_of seeds"
    unfolding variations_of_def fold_add_suffix_iff by blast
  then show "x \<in> variations_of seeds" by (simp add: x)
qed

lemma two_prefixes: "[''user_'', ''app_''] \<in> set (subseqs (rev prefixes))"
  by (simp add: prefixes_def Let_def)

lemma user_app_data: "''user_app_data'' \<in> variations_of [''data'']"
proof -
  have a: "[] \<in> set (subseqs suffixes)" by (simp add: suffixes_def Let_def)
  have b: "''data'' \<in> fold add_singular [''data''] (set [''data''])"
    by (rule seed_in_base) simp
  have c: "''user_app_data'' = concat [''user_'', ''app_''] @ ''data'' @ concat []" by simp
  show ?thesis unfolding variations_of_iff using two_prefixes a b c by blast
qed

section \<open>The claims about the probe and the scan\<close>

text \<open>
  C8. For every seed vocabulary, the list that \<open>generate_table_variations\<close> produces
  contains every seed and has no duplicate entry.
\<close>

theorem generate_table_variations_superset_distinct:
  "set seeds \<subseteq> set (generate_table_variations seeds)
   \<and> distinct (generate_table_variations seeds)"
  using seeds_in_variations [of seeds]
  by (simp add: set_generate) (simp add: generate_table_variations_def)

text \<open>
  C10. For every candidate list, every server and every earlier traffic, the scan returns,
  and the \<open>not_found\<close> bucket of its result is empty. A probe result with
  \<open>exists = False\<close> matches none of the three recording branches: the loop body leaves
  the results unchanged.
\<close>

theorem scan_not_found_always_empty:
  "(\<exists>results sent'. comprehensive_table_scan tr common_tables sent = Inr (results, sent')
      \<and> not_found results = [])
   \<and> (getitem (check_table_exists_result got) ''exists'' = Inr (PBool False) \<longrightarrow>
        record_result table_name (check_table_exists_result got) prior = Inr prior)"
proof
  from scan_batch_total [of tr common_tables empty_results sent]
  show "\<exists>results sent'. comprehensive_table_scan tr common_tables sent = Inr (results, sent')
      \<and> not_found results = []"
    by (auto simp: scan_is_one_pass empty_results_def)
next
  show "getitem (check_table_exists_result got) ''exists'' = Inr (PBool False) \<longrightarrow>
        record_result table_name (check_table_exists_result got) prior = Inr prior"
    using check_result_shapes [of got]
    by (auto simp: getitem_def record_result_absent)
qed

theorem scan_not_found_always_empty_witness:
  "getitem (check_table_exists_result (Inr \<lparr>status_code = 404, json = Inr (PDict [])\<rparr>))
     ''exists'' = Inr (PBool False)
   \<and> record_result ''users''
       (check_table_exists_result (Inr \<lparr>status_code = 404, json = Inr (PDict [])\<rparr>))
       empty_results = Inr empty_results"
proof -
  have h: "getitem (check_table_exists_result
      (Inr \<lparr>status_code = 404, json = Inr (PDict [])\<rparr>)) ''exists'' = Inr (PBool False)"
    by (simp add: check_result_404 getitem_def)
  from scan_not_found_always_empty
    [where got = "Inr \<lparr>status_code = 404, json = Inr (PDict [])\<rparr>"
       and table_name = "''users''" and prior = empty_results] h
  show ?thesis by simp
qed

text \<open>
  C1. The claim is that a scan pass puts every candidate into exactly one of the four
  buckets. On a server that answers 404, the scan of the single candidate \<open>users\<close> sends
  its one probe and returns four empty buckets: the candidate is in none of them.
\<close>

theorem scan_drops_not_found_candidate:
  "comprehensive_table_scan transport_404 [''users''] [] =
     Inr (\<lparr>accessible = [], protected = [], unknown = [], not_found = []\<rparr>, [(''users'', 1)])"
  by (simp add: scan_is_one_pass check_table_exists_def requests_get_def transport_404_def
      check_table_exists_result_def check_table_exists_try_def record_result_absent
      empty_results_def)



text \<open>
  C7. The claim is that a status 200 whose body is not a record collection is never
  accessible. The probe looks at the body only through \<open>response.json()\<close>: a body that
  parses to the string \<open>oops\<close> gives an accessible result, and the scan loop records the
  candidate in the \<open>accessible\<close> bucket.
\<close>

theorem parsed_non_collection_is_accessible_counterexample:
  "record_result ''users''
     (check_table_exists_result (Inr \<lparr>status_code = 200, json = Inr (PStr ''oops'')\<rparr>))
     \<lparr>accessible = [], protected = [], unknown = [], not_found = []\<rparr> =
   Inr \<lparr>accessible = [PDict [(''name'', PStr ''users''), (''sample_data'', PStr ''oops'')]],
        protected = [], unknown = [], not_found = []\<rparr>"
  by (simp add: check_result_200_parsed record_result_accessible)

text \<open>
  C7, as the code has it. The result of a probe is accessible exactly when the request
  returned status 200 and \<open>response.json()\<close> parsed the body, whatever value the body
  parsed to: the scan loop then records the candidate in the \<open>accessible\<close> bucket with
  that value. A status 200 whose body does not parse gives \<open>exists = None\<close> and
  \<open>accessible = False\<close>, and the scan loop records the candidate in the \<open>unknown\<close> bucket.
\<close>

theorem accessible_iff_200_and_json_parses:
  "(getitem (check_table_exists_result got) ''accessible'' = Inr (PBool True)
      \<longleftrightarrow> (\<exists>r data. got = Inr r \<and> status_code r = 200 \<and> json r = Inr data))
   \<and> (status_code r = 200 \<and> json r = Inr data \<longrightarrow>
        record_result table_name (check_table_exists_result (Inr r)) results =
          Inr (results\<lparr>accessible := accessible results @
            [PDict [(''name'', PStr table_name), (''sample_data'', data)]]\<rparr>))
   \<and> (status_code r = 200 \<and> json r = Inl e \<longrightarrow>
        getitem (check_table_exists_result (Inr r)) ''exists'' = Inr PNone
      \<and> getitem (check_table_exists_result (Inr r)) ''accessible'' = Inr (PBool False)
      \<and> (\<exists>detail. record_result table_name (check_table_exists_result (Inr r)) results =
            Inr (results\<lparr>unknown := unknown results @
              [PDict [(''name'', PStr table_name), (''error'', PStr detail)]]\<rparr>)))"
proof (intro conjI impI)
  show "getitem (check_table_exists_result got) ''accessible'' = Inr (PBool True)
      \<longleftrightarrow> (\<exists>r data. got = Inr r \<and> status_code r = 200 \<and> json r = Inr data)"
  proof (cases got)
    case (Inl ex)
    with check_result_exn [of ex] show ?thesis by (auto simp: getitem_def)
  next
    case (Inr r)
    show ?thesis
    proof (cases "status_code r = 200")
      case True
      show ?thesis
      proof (cases "json r")
        case (Inl ex)
        with check_result_200_unparsed [OF True Inl] Inr True show ?thesis
          by (auto simp: getitem_def)
      next
        case (Inr data)
        with check_result_200_parsed [OF True Inr] \<open>got = Inr r\<close> True show ?thesis
          by (auto simp: getitem_def)
      qed
    next
      case False
      show ?thesis
      proof (cases "status_code r = 404")
        case True
        with check_result_404 [OF True] Inr False show ?thesis by (auto simp: getitem_def)
      next
        case n404: False
        with check_result_other [OF False n404] Inr False show ?thesis
          by (auto simp: getitem_def)
      qed
    qed
  qed
next
  assume "status_code r = 200 \<and> json r = Inr data"
  then show "record_result table_name (check_table_exists_result (Inr r)) results =
          Inr (results\<lparr>accessible := accessible results @
            [PDict [(''name'', PStr table_name), (''sample_data'', data)]]\<rparr>)"
    by (simp add: check_result_200_parsed record_result_accessible)
next
  assume a: "status_code r = 200 \<and> json r = Inl e"
  then obtain detail where d: "check_table_exists_result (Inr r) =
     [(''exists'', PNone), (''accessible'', PBool False),
      (''status_code'', PInt 0), (''error'', PStr detail)]"
    using check_result_200_unparsed by blast
  show "getitem (check_table_exists_result (Inr r)) ''exists'' = Inr PNone"
    by (simp add: d getitem_def)
  show "getitem (check_table_exists_result (Inr r)) ''accessible'' = Inr (PBool False)"
    by (simp add: d getitem_def)
  show "\<exists>detail. record_result table_name (check_table_exists_result (Inr r)) results =
            Inr (results\<lparr>unknown := unknown results @
              [PDict [(''name'', PStr table_name), (''error'', PStr detail)]]\<rparr>)"
    by (rule exI [of _ detail]) (simp add: d record_result_unknown)
qed

theorem accessible_iff_200_and_json_parses_witness:
  "status_code \<lparr>status_code = 200, json = Inl (ValueError ''Expecting value'')\<rparr> = 200
   \<and> getitem (check_table_exists_result
        (Inr \<lparr>status_code = 200, json = Inl (ValueError ''Expecting value'')\<rparr>))
        ''accessible'' = Inr (PBool False)
   \<and> record_result ''users'' (check_table_exists_result
        (Inr \<lparr>status_code = 200, json = Inl (ValueError ''Expecting value'')\<rparr>))
        empty_results =
      Inr (empty_results\<lparr>unknown :=
        [PDict [(''name'', PStr ''users''), (''error'', PStr ''Expecting value'')]]\<rparr>)"
proof -
  have r: "check_table_exists_result
      (Inr \<lparr>status_code = 200, json = Inl (ValueError ''Expecting value'')\<rparr>) =
      [(''exists'', PNone), (''accessible'', PBool False),
       (''status_code'', PInt 0), (''error'', PStr ''Expecting value'')]"
    by (simp add: check_table_exists_result_def check_table_exists_try_def)
  from accessible_iff_200_and_json_parses
    [where r = "\<lparr>status_code = 200, json = Inl (ValueError ''Expecting value'')\<rparr>"
       and e = "ValueError ''Expecting value''" and table_name = "''users''"
       and results = empty_results]
  show ?thesis by (simp add: r empty_results_def record_result_unknown getitem_def)
qed

section \<open>The claims about candidate generation, classification and discovery\<close>

text \<open>
  C3. The claim is that for the seed \<open>data\<close> the generated list has no doubly transformed
  name such as \<open>app_data_log\<close>. It has: the suffix loop runs over the set that already
  holds the prefixed names.
\<close>

theorem transforms_compound_counterexample:
  "''app_data_log'' \<in> set (generate_table_variations [''data''])"
proof -
  have "''data'' \<in> fold add_singular [''data''] (set [''data''])" by (rule seed_in_base) simp
  from in_variations_of(4) [OF this, of "''app_''" "''_log''"]
  show ?thesis by (simp add: set_generate prefixes_def suffixes_def)
qed

text \<open>
  C3, as the code has it. Every prefix loop and every suffix loop reads the set as it is
  when that loop starts, so a transform is applied to the output of the transforms before
  it: a prefix loop turns the set \<open>W\<close> left by the earlier prefixes into \<open>W\<close> together with
  \<open>p + w\<close> for every \<open>w\<close> of \<open>W\<close>, and a suffix loop likewise. The generated names are
  exactly the strings \<open>P + t + S\<close> where \<open>t\<close> is in the set before the transforms (a seed or
  a singular form), \<open>P\<close> joins any selection of the prefixes with a later prefix of the list
  in front of an earlier one, and \<open>S\<close> joins any selection of the suffixes in the order of
  the list. So for every seed \<open>t\<close>, prefix \<open>p\<close> and suffix \<open>s\<close> the output holds \<open>p + t\<close>,
  \<open>t + s\<close> and \<open>p + t + s\<close>; for the seed \<open>data\<close> it holds \<open>app_data\<close>, \<open>data_log\<close>,
  \<open>app_data_log\<close> and \<open>user_app_data\<close>.
\<close>

theorem transforms_read_current_set:
  "(x \<in> set (generate_table_variations seeds) \<longleftrightarrow>
      (\<exists>ps t ss. ps \<in> set (subseqs (rev prefixes))
         \<and> t \<in> fold add_singular seeds (set seeds)
         \<and> ss \<in> set (subseqs suffixes)
         \<and> x = concat ps @ t @ concat ss))
   \<and> fold add_prefix (earlier @ [p']) V =
       fold add_prefix earlier V \<union> (\<lambda>w. p' @ w) ` fold add_prefix earlier V
   \<and> fold add_suffix (earlier @ [s']) V =
       fold add_suffix earlier V \<union> (\<lambda>w. w @ s') ` fold add_suffix earlier V
   \<and> (\<forall>t \<in> set seeds. \<forall>p \<in> set prefixes. \<forall>s \<in> set suffixes.
      p @ t \<in> set (generate_table_variations seeds)
    \<and> t @ s \<in> set (generate_table_variations seeds)
    \<and> p @ t @ s \<in> set (generate_table_variations seeds))
   \<and> ''app_data'' \<in> set (generate_table_variations [''data''])
   \<and> ''data_log'' \<in> set (generate_table_variations [''data''])
   \<and> ''app_data_log'' \<in> set (generate_table_variations [''data''])
   \<and> ''user_app_data'' \<in> set (generate_table_variations [''data''])"
proof (intro conjI ballI)
  show "x \<in> set (generate_table_variations seeds) \<longleftrightarrow>
      (\<exists>ps t ss. ps \<in> set (subseqs (rev prefixes))
         \<and> t \<in> fold add_singular seeds (set seeds)
         \<and> ss \<in> set (subseqs suffixes)
         \<and> x = concat ps @ t @ concat ss)"
    by (simp only: set_generate variations_of_iff)
  show "fold add_prefix (earlier @ [p']) V =
       fold add_prefix earlier V \<union> (\<lambda>w. p' @ w) ` fold add_prefix earlier V"
    by (simp add: add_prefix_def)
  show "fold add_suffix (earlier @ [s']) V =
       fold add_suffix earlier V \<union> (\<lambda>w. w @ s') ` fold add_suffix earlier V"
    by (simp add: add_suffix_def)
next
  fix t p s assume "t \<in> set seeds" "p \<in> set prefixes" "s \<in> set suffixes"
  then show "p @ t \<in> set (generate_table_variations seeds)"
    "t @ s \<in> set (generate_table_variations seeds)"
    "p @ t @ s \<in> set (generate_table_variations seeds)"
    by (simp_all add: set_generate in_variations_of seed_in_base)
next
  have b: "''data'' \<in> fold add_singular [''data''] (set [''data''])" by (rule seed_in_base) simp
  from in_variations_of(2) [OF b, of "''app_''"]
  show "''app_data'' \<in> set (generate_table_variations [''data''])"
    by (simp add: set_generate prefixes_def)
  from in_variations_of(3) [OF b, of "''_log''"]
  show "''data_log'' \<in> set (generate_table_variations [''data''])"
    by (simp add: set_generate suffixes_def)
  from in_variations_of(4) [OF b, of "''app_''" "''_log''"]
  show "''app_data_log'' \<in> set (generate_table_variations [''data''])"
    by (simp add: set_generate prefixes_def suffixes_def)
  show "''user_app_data'' \<in> set (generate_table_variations [''data''])"
    by (simp only: set_generate user_app_data)
qed

theorem transforms_read_current_set_witness:
  "''data'' \<in> set [''data''] \<and> ''new_'' \<in> set prefixes \<and> ''_history'' \<in> set suffixes
   \<and> ''new_data_history'' \<in> set (generate_table_variations [''data''])"
proof -
  have h: "''data'' \<in> set [''data'']" "''new_'' \<in> set prefixes" "''_history'' \<in> set suffixes"
    by (simp_all add: prefixes_def suffixes_def)
  note a = transforms_read_current_set [where seeds = "[''data'']",
      THEN conjunct2, THEN conjunct2, THEN conjunct2, THEN conjunct1]
  from a h have "''new_'' @ ''data'' @ ''_history'' \<in> set (generate_table_variations [''data''])"
    by blast
  then show ?thesis using h by simp
qed

text \<open>
  C4. The claim is that \<open>categories\<close> yields \<open>category\<close>. The test for a final \<open>s\<close>
  comes first in the \<open>if\<close>/\<open>elif\<close>, so \<open>categories\<close> loses only its \<open>s\<close>: the output for
  the seed list \<open>[categories]\<close> holds \<open>categorie\<close> and does not hold \<open>category\<close>.
\<close>

theorem ies_branch_missed:
  "''categorie'' \<in> set (generate_table_variations [''categories''])
   \<and> ''category'' \<notin> set (generate_table_variations [''categories''])"
proof
  have "''categorie'' \<in> fold add_singular [''categories''] (set [''categories''])"
    by (simp add: add_singular_def endswith_def)
  then show "''categorie'' \<in> set (generate_table_variations [''categories''])"
    by (simp only: set_generate in_variations_of(1))
next
  show "''category'' \<notin> set (generate_table_variations [''categories''])"
  proof
    assume "''category'' \<in> set (generate_table_variations [''categories''])"
    then have "''category'' \<in> variations_of [''categories'']" by (simp only: set_generate)
    from variations_of_underscore [OF this] show False
      by (simp add: add_singular_def endswith_def)
  qed
qed

text \<open>
  C6. The claim is that a name already probed in the run is not probed again. After the
  probe of \<open>users\<close>, which is the traffic of a scan of the candidate \<open>users\<close>,
  \<open>intelligent_table_discovery\<close> sends a second probe of \<open>users\<close>.
\<close>

theorem discovery_reprobes_counterexample:
  "intelligent_table_discovery transport_404 [(''users'', 1)] =
     Inr ([], [(''users'', 1), (''users'', 1), (''accounts'', 1), (''auth'', 1),
               (''sessions'', 1), (''user_settings'', 1), (''user_roles'', 1),
               (''permissions'', 1), (''user_profiles'', 1), (''transactions'', 1),
               (''orders'', 1), (''invoices'', 1), (''products'', 1), (''customers'', 1),
               (''receipts'', 1), (''payment_methods'', 1), (''subscriptions'', 1)])"
  by (simp only: intelligent_table_discovery_def test_guesses_404)
     (simp add: intelligent_guesses_list)

text \<open>
  C6, as the code has it. \<open>intelligent_table_discovery\<close> returns, and it probes each of its
  sixteen fixed guesses once, in order, whatever was requested before.
\<close>

theorem discovery_probes_every_guess:
  "(\<exists>confirmed. intelligent_table_discovery tr sent =
      Inr (confirmed, sent @ map (\<lambda>t. (t, 1)) intelligent_guesses))
   \<and> intelligent_guesses =
     [''users'', ''accounts'', ''auth'', ''sessions'', ''user_settings'',
      ''user_roles'', ''permissions'', ''user_profiles'',
      ''transactions'', ''orders'', ''invoices'', ''products'',
      ''customers'', ''receipts'', ''payment_methods'', ''subscriptions'']"
  using test_guesses_sent [of tr intelligent_guesses "[]" sent]
  by (simp add: intelligent_table_discovery_def intelligent_guesses_list)

text \<open>
  C2. The claim is that a response code other than 200, 401, 403 and 404 is indeterminate.
  A status 500 gives \<open>exists = True\<close>, \<open>accessible = False\<close>, and the scan loop records the
  candidate in the \<open>protected\<close> bucket, not in \<open>unknown\<close>.
\<close>

theorem other_status_is_protected_counterexample:
  "record_result ''users''
     (check_table_exists_result (Inr \<lparr>status_code = 500, json = Inr (PDict [])\<rparr>))
     \<lparr>accessible = [], protected = [], unknown = [], not_found = []\<rparr> =
   Inr \<lparr>accessible = [],
        protected = [PDict [(''name'', PStr ''users''), (''error'', PStr ''HTTP 500''),
                            (''status_code'', PInt 500)]],
        unknown = [], not_found = []\<rparr>"
  by (simp add: check_result_other record_result_protected str_int_500)

text \<open>
  C2, as the code has it. The class of a probe is decided by the response alone, one
  class for each response: status 200 with a parsed body is accessible and goes to the
  \<open>accessible\<close> bucket; every status other than 200 and 404 (401, 403 and all the rest) is
  protected and goes to the \<open>protected\<close> bucket; status 404 is absent, a result with
  \<open>exists = False\<close>; status 200 with a body that does not parse, a timeout and any other
  exception are indeterminate and go to the \<open>unknown\<close> bucket.
\<close>

theorem probe_classification:
  "(status_code r = 200 \<and> json r = Inr data \<longrightarrow>
      record_result table_name (check_table_exists_result (Inr r)) results =
        Inr (results\<lparr>accessible := accessible results @
          [PDict [(''name'', PStr table_name), (''sample_data'', data)]]\<rparr>))
   \<and> (status_code r \<noteq> 200 \<and> status_code r \<noteq> 404 \<longrightarrow>
      record_result table_name (check_table_exists_result (Inr r)) results =
        Inr (results\<lparr>protected := protected results @
          [PDict [(''name'', PStr table_name),
                  (''error'', PStr (if status_code r = 401 then ''Authentication required''
                                    else if status_code r = 403 then ''Access forbidden''
                                    else ''HTTP '' @ str_int (status_code r))),
                  (''status_code'', PInt (status_code r))]]\<rparr>))
   \<and> (status_code r = 404 \<longrightarrow>
      check_table_exists_result (Inr r) =
        [(''exists'', PBool False), (''accessible'', PBool False),
         (''status_code'', PInt 404), (''error'', PStr ''Table not found'')])
   \<and> (status_code r = 200 \<and> json r = Inl e \<longrightarrow>
      (\<exists>detail. record_result table_name (check_table_exists_result (Inr r)) results =
        Inr (results\<lparr>unknown := unknown results @
          [PDict [(''name'', PStr table_name), (''error'', PStr detail)]]\<rparr>)))
   \<and> (\<exists>detail. record_result table_name (check_table_exists_result (Inl e)) results =
        Inr (results\<lparr>unknown := unknown results @
          [PDict [(''name'', PStr table_name), (''error'', PStr detail)]]\<rparr>))"
proof (intro conjI impI)
  assume "status_code r = 200 \<and> json r = Inr data"
  then show "record_result table_name (check_table_exists_result (Inr r)) results =
        Inr (results\<lparr>accessible := accessible results @
          [PDict [(''name'', PStr table_name), (''sample_data'', data)]]\<rparr>)"
    by (simp add: check_result_200_parsed record_result_accessible)
next
  assume "status_code r \<noteq> 200 \<and> status_code r \<noteq> 404"
  then have n: "status_code r \<noteq> 200" "status_code r \<noteq> 404" by simp_all
  show "record_result table_name (check_table_exists_result (Inr r)) results =
        Inr (results\<lparr>protected := protected results @
          [PDict [(''name'', PStr table_name),
                  (''error'', PStr (if status_code r = 401 then ''Authentication required''
                                    else if status_code r = 403 then ''Access forbidden''
                                    else ''HTTP '' @ str_int (status_code r))),
                  (''status_code'', PInt (status_code r))]]\<rparr>)"
    by (simp only: check_result_other [OF n] record_result_protected)
next
  assume "status_code r = 404"
  then show "check_table_exists_result (Inr r) =
        [(''exists'', PBool False), (''accessible'', PBool False),
         (''status_code'', PInt 404), (''error'', PStr ''Table not found'')]"
    by (rule check_result_404)
next
  assume "status_code r = 200 \<and> json r = Inl e"
  then obtain detail where "check_table_exists_result (Inr r) =
     [(''exists'', PNone), (''accessible'', PBool False),
      (''status_code'', PInt 0), (''error'', PStr detail)]"
    using check_result_200_unparsed by blast
  then show "\<exists>detail. record_result table_name (check_table_exists_result (Inr r)) results =
        Inr (results\<lparr>unknown := unknown results @
          [PDict [(''name'', PStr table_name), (''error'', PStr detail)]]\<rparr>)"
    by (intro exI [of _ detail]) (simp add: record_result_unknown)
next
  obtain detail where "check_table_exists_result (Inl e) =
     [(''exists'', PNone), (''accessible'', PBool False),
      (''status_code'', PInt 0), (''error'', PStr detail)]"
    using check_result_exn by blast
  then show "\<exists>detail. record_result table_name (check_table_exists_result (Inl e)) results =
        Inr (results\<lparr>unknown := unknown results @
          [PDict [(''name'', PStr table_name), (''error'', PStr detail)]]\<rparr>)"
    by (intro exI [of _ detail]) (simp add: record_result_unknown)
qed

theorem probe_classification_witness:
  "status_code \<lparr>status_code = 503, json = Inl (ValueError ''Expecting value'')\<rparr> \<noteq> 200
   \<and> status_code \<lparr>status_code = 503, json = Inl (ValueError ''Expecting value'')\<rparr> \<noteq> 404
   \<and> record_result ''orders'' (check_table_exists_result
        (Inr \<lparr>status_code = 503, json = Inl (ValueError ''Expecting value'')\<rparr>)) empty_results =
      Inr (empty_results\<lparr>protected :=
        [PDict [(''name'', PStr ''orders''), (''error'', PStr ''HTTP 503''),
                (''status_code'', PInt 503)]]\<rparr>)"
proof -
  have s: "str_int 503 = ''503''" by (simp add: str_int_def)
  from probe_classification [where r = "\<lparr>status_code = 503, json = Inl (ValueError ''Expecting value'')\<rparr>"
      and table_name = "''orders''" and results = empty_results]
  show ?thesis by (simp add: s empty_results_def)
qed

section \<open>The claim about schema inference\<close>

text \<open>
  C5. The claim is that every field name observed in the sample gets a summary, with a flag
  telling whether every row has the field. For the sample
  \<open>[{"id": 1}, {"id": 2, "name": "b"}]\<close> the result has a summary for \<open>id\<close> only, and the
  summary holds a type and example values, no flag.
\<close>

theorem schema_ignores_later_fields_counterexample:
  "get_table_schema_info_result remdups
     (Inr \<lparr>status_code = 200,
           json = Inr (PList [PDict [(''id'', PInt 1)],
                              PDict [(''id'', PInt 2), (''name'', PStr ''b'')]])\<rparr>) =
   [(''success'', PBool True),
    (''columns'', PList [PStr ''id'']),
    (''column_info'',
       PDict [(''id'', PDict [(''type'', PStr ''int''),
                              (''sample_values'', PList [PInt 1, PInt 2])])]),
    (''sample_count'', PInt 2),
    (''sample_data'', PList [PDict [(''id'', PInt 1)],
                             PDict [(''id'', PInt 2), (''name'', PStr ''b'')]])]"
  by (simp add: schema_result_200 analyse_data_def rows_of_def column_summary_def py_max_def
      dict_get_def)


text \<open>
  C5, as the code has it. For a status 200 whose body is a non-empty list of records, and
  whatever order Python iterates a set in, the result has one summary for each field name
  of the first row and no other. The non-null values of the field in the first five rows
  vote: the type is \<open>unknown\<close> if there is none, and otherwise a type name of one of them
  that no other type name outnumbers. The first three of these values are the examples.
  For the sample \<open>[{"id": 1, "name": "a"}, {"id": 2, "name": "b"}, {"id": 3}]\<close> the field
  \<open>id\<close> has type \<open>int\<close> and examples \<open>[1, 2, 3]\<close>, the field \<open>name\<close> has type \<open>str\<close> and
  examples \<open>["a", "b"]\<close>.
\<close>

theorem schema_summarises_first_row_fields:
  assumes so: "\<forall>xs. set (set_order xs) = set xs"
  shows
  "(\<exists>ci. get_table_schema_info_result set_order
            (Inr \<lparr>status_code = 200, json = Inr (PList (map PDict (d # ds)))\<rparr>) =
          [(''success'', PBool True),
           (''columns'', PList (map PStr (map fst d))),
           (''column_info'', PDict ci),
           (''sample_count'', PInt (int (length (d # ds)))),
           (''sample_data'', PList (map PDict (d # ds)))]
        \<and> fst ` set ci = fst ` set d
        \<and> (\<forall>col \<in> fst ` set d. \<exists>T.
             map_of ci col = Some (PDict
               [(''type'', PStr T),
                (''sample_values'', PList (take 3
                   (filter (\<lambda>v. v \<noteq> PNone) (map (\<lambda>row. dict_get row col) (take 5 (d # ds))))))])
             \<and> (if filter (\<lambda>v. v \<noteq> PNone) (map (\<lambda>row. dict_get row col) (take 5 (d # ds))) = []
                then T = ''unknown''
                else T \<in> type_name ` {v \<in> (\<lambda>row. dict_get row col) ` set (take 5 (d # ds)). v \<noteq> PNone}
                   \<and> (\<forall>T'. count_list (map type_name (filter (\<lambda>v. v \<noteq> PNone)
                               (map (\<lambda>row. dict_get row col) (take 5 (d # ds))))) T'
                          \<le> count_list (map type_name (filter (\<lambda>v. v \<noteq> PNone)
                               (map (\<lambda>row. dict_get row col) (take 5 (d # ds))))) T))))
   \<and> get_table_schema_info_result set_order
        (Inr \<lparr>status_code = 200,
              json = Inr (PList [PDict [(''id'', PInt 1), (''name'', PStr ''a'')],
                                 PDict [(''id'', PInt 2), (''name'', PStr ''b'')],
                                 PDict [(''id'', PInt 3)]])\<rparr>) =
      [(''success'', PBool True),
       (''columns'', PList [PStr ''id'', PStr ''name'']),
       (''column_info'',
          PDict [(''id'', PDict [(''type'', PStr ''int''),
                                 (''sample_values'', PList [PInt 1, PInt 2, PInt 3])]),
                 (''name'', PDict [(''type'', PStr ''str''),
                                   (''sample_values'', PList [PStr ''a'', PStr ''b''])])]),
       (''sample_count'', PInt 3),
       (''sample_data'', PList [PDict [(''id'', PInt 1), (''name'', PStr ''a'')],
                                PDict [(''id'', PInt 2), (''name'', PStr ''b'')],
                                PDict [(''id'', PInt 3)]])]"
proof
  from so have so': "\<And>xs. set (set_order xs) = set xs" by blast
  let ?rows = "map PDict (d # ds)"
  let ?vals = "\<lambda>col. filter (\<lambda>v. v \<noteq> PNone) (map (\<lambda>row. dict_get row col) (take 5 (d # ds)))"
  let ?P = "\<lambda>col s. \<exists>T. s = PDict [(''type'', PStr T), (''sample_values'', PList (take 3 (?vals col)))]
        \<and> (if ?vals col = [] then T = ''unknown''
            else T \<in> set (map type_name (?vals col))
              \<and> (\<forall>T'. count_list (map type_name (?vals col)) T'
                     \<le> count_list (map type_name (?vals col)) T))"
  have "\<exists>s. column_summary set_order ?rows col = Inr s \<and> ?P col s" for col
    using column_summary_dicts [of set_order "?vals col" col "d # ds", OF so' refl] by blast
  from column_infos_spec [of "map fst d" set_order ?rows ?P "[]", OF this]
  obtain ci where ci: "column_infos set_order ?rows (map fst d) [] = Inr ci"
    and dom: "fst ` set ci = set (map fst d)"
    and inn: "\<forall>col \<in> set (map fst d). \<exists>s. map_of ci col = Some s \<and> ?P col s"
    by auto
  have setvals: "set (map type_name (?vals col))
      = type_name ` {v \<in> (\<lambda>row. dict_get row col) ` set (take 5 (d # ds)). v \<noteq> PNone}" for col
    by auto
  show "\<exists>ci. get_table_schema_info_result set_order
            (Inr \<lparr>status_code = 200, json = Inr (PList (map PDict (d # ds)))\<rparr>) =
          [(''success'', PBool True),
           (''columns'', PList (map PStr (map fst d))),
           (''column_info'', PDict ci),
           (''sample_count'', PInt (int (length (d # ds)))),
           (''sample_data'', PList (map PDict (d # ds)))]
        \<and> fst ` set ci = fst ` set d
        \<and> (\<forall>col \<in> fst ` set d. \<exists>T.
             map_of ci col = Some (PDict
               [(''type'', PStr T),
                (''sample_values'', PList (take 3 (?vals col)))])
             \<and> (if ?vals col = []
                then T = ''unknown''
                else T \<in> type_name ` {v \<in> (\<lambda>row. dict_get row col) ` set (take 5 (d # ds)). v \<noteq> PNone}
                   \<and> (\<forall>T'. count_list (map type_name (?vals col)) T'
                          \<le> count_list (map type_name (?vals col)) T)))"
  proof (intro exI [of _ ci] conjI ballI)
    show "get_table_schema_info_result set_order
            (Inr \<lparr>status_code = 200, json = Inr (PList (map PDict (d # ds)))\<rparr>) =
          [(''success'', PBool True),
           (''columns'', PList (map PStr (map fst d))),
           (''column_info'', PDict ci),
           (''sample_count'', PInt (int (length (d # ds)))),
           (''sample_data'', PList (map PDict (d # ds)))]"
      by (simp only: schema_result_200 analyse_data_dicts ci sum.case)
    show "fst ` set ci = fst ` set d" using dom by simp
    fix col assume "col \<in> fst ` set d"
    then have "col \<in> set (map fst d)" by simp
    with inn have "\<exists>s. map_of ci col = Some s \<and> ?P col s" by blast
    then show "\<exists>T. map_of ci col = Some (PDict
               [(''type'', PStr T),
                (''sample_values'', PList (take 3 (?vals col)))])
             \<and> (if ?vals col = []
                then T = ''unknown''
                else T \<in> type_name ` {v \<in> (\<lambda>row. dict_get row col) ` set (take 5 (d # ds)). v \<noteq> PNone}
                   \<and> (\<forall>T'. count_list (map type_name (?vals col)) T'
                          \<le> count_list (map type_name (?vals col)) T))"
      unfolding setvals [symmetric] by blast
  qed
next
  from so have so': "\<And>xs. set (set_order xs) = set xs" by blast
  let ?d1 = "[(''id'', PInt 1), (''name'', PStr ''a'')]"
  let ?ds = "[[(''id'', PInt 2), (''name'', PStr ''b'')], [(''id'', PInt 3)]]"
  have rows: "[PDict [(''id'', PInt 1), (''name'', PStr ''a'')],
               PDict [(''id'', PInt 2), (''name'', PStr ''b'')],
               PDict [(''id'', PInt 3)]] = map PDict (?d1 # ?ds)" by simp
  have id: "column_summary set_order (map PDict (?d1 # ?ds)) ''id'' =
      Inr (PDict [(''type'', PStr ''int''), (''sample_values'', PList [PInt 1, PInt 2, PInt 3])])"
    using column_summary_dicts [of set_order
        "filter (\<lambda>v. v \<noteq> PNone) (map (\<lambda>d. dict_get d ''id'') (take 5 (?d1 # ?ds)))"
        "''id''" "?d1 # ?ds", OF so' refl]
    by (auto simp: dict_get_def)
  have name: "column_summary set_order (map PDict (?d1 # ?ds)) ''name'' =
      Inr (PDict [(''type'', PStr ''str''), (''sample_values'', PList [PStr ''a'', PStr ''b''])])"
    using column_summary_dicts [of set_order
        "filter (\<lambda>v. v \<noteq> PNone) (map (\<lambda>d. dict_get d ''name'') (take 5 (?d1 # ?ds)))"
        "''name''" "?d1 # ?ds", OF so' refl]
    by (auto simp: dict_get_def)
  have ci: "column_infos set_order (map PDict (?d1 # ?ds)) (map fst ?d1) [] =
      Inr [(''id'', PDict [(''type'', PStr ''int''),
                          (''sample_values'', PList [PInt 1, PInt 2, PInt 3])]),
           (''name'', PDict [(''type'', PStr ''str''),
                            (''sample_values'', PList [PStr ''a'', PStr ''b''])])]"
    using id name by simp
  show "get_table_schema_info_result set_order
        (Inr \<lparr>status_code = 200,
              json = Inr (PList [PDict [(''id'', PInt 1), (''name'', PStr ''a'')],
                                 PDict [(''id'', PInt 2), (''name'', PStr ''b'')],
                                 PDict [(''id'', PInt 3)]])\<rparr>) =
      [(''success'', PBool True),
       (''columns'', PList [PStr ''id'', PStr ''name'']),
       (''column_info'',
          PDict [(''id'', PDict [(''type'', PStr ''int''),
                                 (''sample_values'', PList [PInt 1, PInt 2, PInt 3])]),
                 (''name'', PDict [(''type'', PStr ''str''),
                                   (''sample_values'', PList [PStr ''a'', PStr ''b''])])]),
       (''sample_count'', PInt 3),
       (''sample_data'', PList [PDict [(''id'', PInt 1), (''name'', PStr ''a'')],
                                PDict [(''id'', PInt 2), (''name'', PStr ''b'')],
                                PDict [(''id'', PInt 3)]])]"
    unfolding rows
    by (simp only: schema_result_200 analyse_data_dicts ci sum.case) simp
qed

theorem schema_summarises_first_row_fields_witness:
  "(\<forall>xs :: string list. set (remdups xs) = set xs)
   \<and> get_table_schema_info_result remdups
        (Inr \<lparr>status_code = 200,
              json = Inr (PList [PDict [(''id'', PInt 1), (''name'', PStr ''a'')],
                                 PDict [(''id'', PInt 2), (''name'', PStr ''b'')],
                                 PDict [(''id'', PInt 3)]])\<rparr>) =
      [(''success'', PBool True),
       (''columns'', PList [PStr ''id'', PStr ''name'']),
       (''column_info'',
          PDict [(''id'', PDict [(''type'', PStr ''int''),
                                 (''sample_values'', PList [PInt 1, PInt 2, PInt 3])]),
                 (''name'', PDict [(''type'', PStr ''str''),
                                   (''sample_values'', PList [PStr ''a'', PStr ''b''])])]),
       (''sample_count'', PInt 3),
       (''sample_data'', PList [PDict [(''id'', PInt 1), (''name'', PStr ''a'')],
                                PDict [(''id'', PInt 2), (''name'', PStr ''b'')],
                                PDict [(''id'', PInt 3)]])]"
proof -
  have h: "\<forall>xs :: string list. set (remdups xs) = set xs" by simp
  from schema_summarises_first_row_fields [OF h] h show ?thesis by blast
qed

end
